theory Spec2Isabelle
  imports Main
begin

section \<open>Data: parsed JSON, exceptions, console messages, effects\<close>

text \<open>
  The value of \<^verbatim>\<open>response.json()\<close>. A JSON object is the Python dict it parses to, kept
  as an association list in insertion order. Numbers are left open (\<open>'n\<close>): the code never
  computes with one, it can only test one for zero. \<open>JNull\<close> is Python's \<^verbatim>\<open>None\<close>.
\<close>

datatype 'n json =
    JNull
  | JBool bool
  | JNum 'n
  | JStr string
  | JArr "'n json list"
  | JObj "(string \<times> 'n json) list"

text \<open>Instances of Python's \<^verbatim>\<open>Exception\<close>, the class both handlers catch.\<close>

datatype exn =
    RequestException string
  | JSONDecodeError
  | TypeError
  | ValueError string
  | KeyError "string list"
  | OSError string
  | UnicodeEncodeError

text \<open>
  What \<^verbatim>\<open>requests.get\<close> does on one call: it raises, or it gives a response with a status
  code, a text and the outcome of \<^verbatim>\<open>response.json()\<close> (which raises on a malformed body).
\<close>

datatype 'n response =
    Raises exn
  | Response nat string "exn + 'n json"

text \<open>A table: the column labels and, per row, one cell per column.\<close>

datatype 'n cell = Val "'n json" | NaN

record 'n frame =
  columns :: "string list"
  rows :: "'n cell list list"

text \<open>
  The lines the program prints, one constructor per \<^verbatim>\<open>print\<close> of the source. The lines of
  \<open>fetch_crypto_data\<close> and the progress lines of \<open>save_to_excel\<close> are plain ASCII, and printing
  them is an effect of the trace that always succeeds. The other lines begin with an emoji:
  printing one of them raises when standard output cannot encode it.
\<close>

datatype msg =
    Fetch_attempt nat int
  | Status_code nat
  | Fetched nat
  | Rate_limit
  | Error_fetching nat
  | Response_content string
  | Exception_during_fetch exn
  | All_failed
  | Preparing string
  | Warning_missing string
  | Excel_created string nat
  | Excel_failed string
  | Error_saving exn
  | Starting
  | No_data
  | Completed string
  | Failed_to_save

text \<open>The lines whose text in the source begins with an emoji (source lines 83, 86, 89, 96,
  102, 109 and 111).\<close>

fun emoji :: "msg \<Rightarrow> bool" where
  "emoji (Excel_created file_path file_size) = True"
| "emoji (Excel_failed file_path) = True"
| "emoji (Error_saving e) = True"
| "emoji Starting = True"
| "emoji No_data = True"
| "emoji (Completed excel_path) = True"
| "emoji Failed_to_save = True"
| "emoji m = False"

text \<open>
  The effects of a run, in the order they happen: an HTTP request, \<^verbatim>\<open>time.sleep\<close> of so
  many seconds, a printed line, \<^verbatim>\<open>os.makedirs\<close>, and a table written by \<^verbatim>\<open>to_excel\<close>.
\<close>

datatype 'n event =
    Request
  | Sleep nat
  | Print msg
  | Makedirs string
  | Write_excel string "'n frame"

section \<open>Python built-ins the code uses\<close>

text \<open>Keys of a dict in insertion order: a repeated key keeps its first position.\<close>

fun ordered_union :: "'a list \<Rightarrow> 'a list \<Rightarrow> 'a list" where
  "ordered_union seen [] = seen"
| "ordered_union seen (k # ks) =
     (if k \<in> set seen then ordered_union seen ks else ordered_union (seen @ [k]) ks)"

definition keys :: "(string \<times> 'n json) list \<Rightarrow> string list" where
  "keys kvs = ordered_union [] (map fst kvs)"

text \<open>\<^verbatim>\<open>len(data)\<close>: defined on lists, dicts and strings, a TypeError on anything else.\<close>

fun len :: "'n json \<Rightarrow> exn + nat" where
  "len (JArr xs) = Inr (length xs)"
| "len (JObj kvs) = Inr (length (keys kvs))"
| "len (JStr s) = Inr (length s)"
| "len JNull = Inl TypeError"
| "len (JBool b) = Inl TypeError"
| "len (JNum n) = Inl TypeError"


section \<open>fetch_crypto_data\<close>

text \<open>
  The body of the \<^verbatim>\<open>try\<close> of one attempt: the effects it has, and how it ends: an
  exception (\<open>Inl\<close>), \<^verbatim>\<open>return data\<close> (\<open>Inr (Some data)\<close>) or falling through to the
  next iteration (\<open>Inr None\<close>).
\<close>

definition attempt_try ::
  "int \<Rightarrow> nat \<Rightarrow> 'n response \<Rightarrow> 'n event list \<times> (exn + 'n json option)" where
  "attempt_try max_retries attempt r =
     (let ev0 = [Print (Fetch_attempt (attempt + 1) max_retries), Request] in
      case r of
        Raises e \<Rightarrow> (ev0, Inl e)
      | Response status_code text body \<Rightarrow>
          (let ev1 = ev0 @ [Print (Status_code status_code)] in
           if status_code = 200 then
             (case body of
                Inl e \<Rightarrow> (ev1, Inl e)
              | Inr data \<Rightarrow>
                  (case len data of
                     Inl e \<Rightarrow> (ev1, Inl e)
                   | Inr n \<Rightarrow> (ev1 @ [Print (Fetched n)], Inr (Some data))))
           else if status_code = 429 then
             (ev1 @ [Print Rate_limit, Sleep 60], Inr None)
           else
             (ev1 @ [Print (Error_fetching status_code),
                     Print (Response_content (take 200 text)), Sleep 5], Inr None)))"

text \<open>One iteration of the loop: the \<^verbatim>\<open>try\<close> with its \<^verbatim>\<open>except Exception\<close> handler.\<close>

definition attempt_step ::
  "int \<Rightarrow> nat \<Rightarrow> 'n response \<Rightarrow> 'n event list \<times> 'n json option" where
  "attempt_step max_retries attempt r =
     (case attempt_try max_retries attempt r of
        (evs, Inl e) \<Rightarrow> (evs @ [Print (Exception_during_fetch e), Sleep 5], None)
      | (evs, Inr ret) \<Rightarrow> (evs, ret))"

text \<open>
  The \<^verbatim>\<open>for attempt in range(max_retries)\<close> loop over the attempts still to make, and what
  follows it. \<open>net k\<close> is what the \<open>k\<close>-th call of \<^verbatim>\<open>requests.get\<close> does; every attempt makes
  exactly one call, so attempt \<open>k\<close> sees \<open>net k\<close>.
\<close>

fun fetch_loop ::
  "int \<Rightarrow> (nat \<Rightarrow> 'n response) \<Rightarrow> nat list \<Rightarrow> 'n event list \<times> 'n json option" where
  "fetch_loop max_retries net [] = ([Print All_failed], None)"
| "fetch_loop max_retries net (attempt # rest) =
     (case attempt_step max_retries attempt (net attempt) of
        (evs, Some data) \<Rightarrow> (evs, Some data)
      | (evs, None) \<Rightarrow>
          (case fetch_loop max_retries net rest of (evs', ret) \<Rightarrow> (evs @ evs', ret)))"

definition fetch_crypto_data ::
  "int \<Rightarrow> (nat \<Rightarrow> 'n response) \<Rightarrow> 'n event list \<times> 'n json option" where
  "fetch_crypto_data max_retries net = fetch_loop max_retries net [0 ..< nat max_retries]"

section \<open>Reading a trace\<close>

definition request_count :: "'n event list \<Rightarrow> nat" where
  "request_count evs = length (filter (\<lambda>e. e = Request) evs)"

fun sleeps :: "'n event list \<Rightarrow> nat list" where
  "sleeps [] = []"
| "sleeps (Sleep d # evs) = d # sleeps evs"
| "sleeps (e # evs) = sleeps evs"

text \<open>
  For each request of a trace, in order, the effects that follow it up to the next request
  (or to the end of the trace).
\<close>

fun after_requests :: "'n event list \<Rightarrow> 'n event list list" where
  "after_requests [] = []"
| "after_requests (Request # evs) = takeWhile (\<lambda>e. e \<noteq> Request) evs # after_requests evs"
| "after_requests (e # evs) = after_requests evs"

text \<open>The seconds slept after the \<open>k\<close>-th request and before the next one.\<close>

definition waits_after :: "'n event list \<Rightarrow> nat \<Rightarrow> nat list" where
  "waits_after evs k = (if k < length (after_requests evs) then sleeps (after_requests evs ! k) else [])"

text \<open>An attempt that ends the loop: status 200 with a body that parses to something with a length.\<close>

definition has_len :: "'n json \<Rightarrow> bool" where
  "has_len data = (case len data of Inl e \<Rightarrow> False | Inr n \<Rightarrow> True)"

fun succeeds :: "'n response \<Rightarrow> bool" where
  "succeeds (Response status_code text (Inr data)) = (status_code = 200 \<and> has_len data)"
| "succeeds (Response status_code text (Inl e)) = False"
| "succeeds (Raises e) = False"

section \<open>save_to_excel\<close>

subsection \<open>Clock and paths\<close>

record datetime =
  year :: nat
  month :: nat
  day :: nat
  hour :: nat
  minute :: nat
  second :: nat

text \<open>The last decimal digit of a number, and a number zero-padded to two and to four digits.\<close>

definition digit :: "nat \<Rightarrow> char" where
  "digit d = ''0123456789'' ! (d mod 10)"

definition pad2 :: "nat \<Rightarrow> string" where
  "pad2 n = [digit (n div 10), digit n]"

definition pad4 :: "nat \<Rightarrow> string" where
  "pad4 n = [digit (n div 1000), digit (n div 100), digit (n div 10), digit n]"

text \<open>\<^verbatim>\<open>strftime("%Y-%m-%d")\<close>, for the years a running clock gives (four digits).\<close>

definition strftime_date :: "datetime \<Rightarrow> string" where
  "strftime_date t = pad4 (year t) @ ''-'' @ pad2 (month t) @ ''-'' @ pad2 (day t)"

text \<open>\<^verbatim>\<open>strftime("%Y-%m-%d %H:%M:%S")\<close>.\<close>

definition strftime_timestamp :: "datetime \<Rightarrow> string" where
  "strftime_timestamp t =
     strftime_date t @ '' '' @ pad2 (hour t) @ '':'' @ pad2 (minute t) @ '':'' @ pad2 (second t)"

text \<open>\<^verbatim>\<open>os.path.join\<close> of two components (POSIX).\<close>

definition os_path_join :: "string \<Rightarrow> string \<Rightarrow> string" where
  "os_path_join a b =
     (if b \<noteq> [] \<and> hd b = CHR ''/'' then b
      else if a = [] \<or> last a = CHR ''/'' then a @ b
      else a @ ''/'' @ b)"

subsection \<open>The world outside the program\<close>

text \<open>
  What the operating system, the clock and the libraries answer: whether \<^verbatim>\<open>os.makedirs\<close>
  raises, the \<open>k\<close>-th reading of \<^verbatim>\<open>datetime.now()\<close>, the frame pandas builds from data that
  is not a list of dicts, whether \<^verbatim>\<open>to_excel\<close> raises, and the answers of
  \<^verbatim>\<open>os.path.exists\<close> and \<^verbatim>\<open>os.path.getsize\<close> after the write. \<open>requests_get\<close> is the
  network, as \<open>fetch_crypto_data\<close> reads it. \<open>stdout_emoji\<close> says whether the encoding of
  standard output has the emoji of the messages (UTF-8 has them; ASCII, cp1252 and Latin-1
  do not).
\<close>

record 'n world =
  requests_get :: "nat \<Rightarrow> 'n response"
  makedirs_exn :: "string \<Rightarrow> exn option"
  clock :: "nat \<Rightarrow> datetime"
  frame_other :: "'n json \<Rightarrow> exn + 'n frame"
  to_excel_exn :: "string \<Rightarrow> 'n frame \<Rightarrow> exn option"
  path_exists :: "string \<Rightarrow> bool"
  getsize :: "string \<Rightarrow> exn + nat"
  stdout_emoji :: bool

text \<open>
  What \<^verbatim>\<open>print\<close> of a line does: nothing is written and UnicodeEncodeError is raised when
  the line holds an emoji that standard output cannot encode.
\<close>

definition print_exn :: "('n, 'z) world_scheme \<Rightarrow> msg \<Rightarrow> exn option" where
  "print_exn w m = (if emoji m \<and> \<not> stdout_emoji w then Some UnicodeEncodeError else None)"

text \<open>
  \<^verbatim>\<open>print\<close> of a line as the last statement before leaving with \<open>ret\<close>, after the effects
  \<open>evs\<close>: the exception of the \<^verbatim>\<open>print\<close>, or the line printed and \<open>ret\<close>.
\<close>

definition print_then ::
  "('n, 'z) world_scheme \<Rightarrow> 'n event list \<Rightarrow> msg \<Rightarrow> 'a \<Rightarrow> 'n event list \<times> (exn + 'a)" where
  "print_then w evs m ret =
     (case print_exn w m of
        Some e \<Rightarrow> (evs, Inl e)
      | None \<Rightarrow> (evs @ [Print m], Inr ret))"

subsection \<open>The pandas operations\<close>

text \<open>The dicts of a list whose elements are all dicts.\<close>

fun as_records :: "'n json list \<Rightarrow> (string \<times> 'n json) list list option" where
  "as_records [] = Some []"
| "as_records (JObj kvs # xs) =
     (case as_records xs of None \<Rightarrow> None | Some recs \<Rightarrow> Some (kvs # recs))"
| "as_records (x # xs) = None"

text \<open>\<^verbatim>\<open>d[k]\<close> of a parsed dict: the last binding of a repeated key is the one kept.\<close>

definition lookup :: "(string \<times> 'n json) list \<Rightarrow> string \<Rightarrow> 'n json option" where
  "lookup kvs k = map_of (rev kvs) k"

text \<open>
  \<^verbatim>\<open>pd.DataFrame\<close> of a list of dicts: the columns are the keys of all the dicts in order of
  first appearance, one row per dict, NaN where a dict lacks a key.
\<close>

definition frame_of_records :: "(string \<times> 'n json) list list \<Rightarrow> 'n frame" where
  "frame_of_records recs =
     (let cols = ordered_union [] (concat (map (map fst) recs)) in
      \<lparr>columns = cols,
       rows = map (\<lambda>r. map (\<lambda>c. case lookup r c of Some v \<Rightarrow> Val v | None \<Rightarrow> NaN) cols) recs\<rparr>)"

definition DataFrame :: "('n, 'z) world_scheme \<Rightarrow> 'n json \<Rightarrow> exn + 'n frame" where
  "DataFrame w data =
     (case data of
        JArr xs \<Rightarrow>
          (case as_records xs of
             Some recs \<Rightarrow> Inr (frame_of_records recs)
           | None \<Rightarrow> frame_other w data)
      | _ \<Rightarrow> frame_other w data)"

text \<open>The cell of a row under a column label.\<close>

definition cell_at :: "string list \<Rightarrow> 'n cell list \<Rightarrow> string \<Rightarrow> 'n cell" where
  "cell_at cols row c = (case map_of (zip cols row) c of Some x \<Rightarrow> x | None \<Rightarrow> NaN)"

text \<open>\<^verbatim>\<open>df[cols]\<close>: a KeyError naming the labels that are not columns of the frame.\<close>

definition select :: "'n frame \<Rightarrow> string list \<Rightarrow> exn + 'n frame" where
  "select df cols =
     (let missing = filter (\<lambda>c. c \<notin> set (columns df)) cols in
      if missing \<noteq> [] then Inl (KeyError missing)
      else Inr \<lparr>columns = cols,
                rows = map (\<lambda>row. map (cell_at (columns df) row) cols) (rows df)\<rparr>)"

text \<open>\<^verbatim>\<open>df[c] = v\<close> with a scalar: overwrites the column, or appends a new last one.\<close>

definition set_column :: "'n frame \<Rightarrow> string \<Rightarrow> 'n cell \<Rightarrow> 'n frame" where
  "set_column df c v =
     (if c \<in> set (columns df) then
        \<lparr>columns = columns df,
         rows = map (\<lambda>row. map (\<lambda>(c', x). if c' = c then v else x) (zip (columns df) row)) (rows df)\<rparr>
      else
        \<lparr>columns = columns df @ [c], rows = map (\<lambda>row. row @ [v]) (rows df)\<rparr>)"

subsection \<open>The column check\<close>

definition allow_list :: "string list" where
  "allow_list = [''id'', ''symbol'', ''name'', ''current_price'', ''market_cap'',
     ''total_volume'', ''price_change_percentage_24h'']"

text \<open>
  \<^verbatim>\<open>for col in columns_to_keep: if col not in df.columns: print(...); columns_to_keep.remove(col)\<close>.
  Python's list iterator keeps an index \<open>i\<close> into the list it walks: each step reads
  \<open>columns_to_keep[i]\<close> of the list as it is then and moves to \<open>i + 1\<close>, and stops when
  \<open>i\<close> reaches the current length. \<^verbatim>\<open>remove\<close> deletes the first occurrence. The result is the
  columns warned about, in order, and the final list.
\<close>

function check_columns :: "string list \<Rightarrow> string list \<Rightarrow> nat \<Rightarrow> string list \<times> string list" where
  "check_columns present columns_to_keep i =
     (if i < length columns_to_keep then
        (if columns_to_keep ! i \<notin> set present then
           (case check_columns present (remove1 (columns_to_keep ! i) columns_to_keep) (i + 1) of
              (warned, kept) \<Rightarrow> (columns_to_keep ! i # warned, kept))
         else check_columns present columns_to_keep (i + 1))
      else ([], columns_to_keep))"
  by pat_completeness auto
termination
  by (relation "measure (\<lambda>(present, columns_to_keep, i). length columns_to_keep - i)")
     (auto simp: length_remove1)

declare check_columns.simps [simp del]

subsection \<open>The function\<close>

text \<open>
  The body of the \<^verbatim>\<open>try\<close>: its effects, and how it ends: an exception (\<open>Inl\<close>) or the
  returned value (\<open>Inr\<close>: the path, or \<^verbatim>\<open>None\<close>).
\<close>

definition save_try ::
  "('n, 'z) world_scheme \<Rightarrow> 'n json \<Rightarrow> string \<Rightarrow> 'n event list \<times> (exn + string option)" where
  "save_try w data directory =
     (case makedirs_exn w directory of
        Some e \<Rightarrow> ([Makedirs directory], Inl e)
      | None \<Rightarrow>
          (let today = strftime_date (clock w 0);
               filename = ''crypto_data_'' @ today @ ''.xlsx'';
               file_path = os_path_join directory filename;
               ev0 = [Makedirs directory, Print (Preparing file_path)]
           in case DataFrame w data of
                Inl e \<Rightarrow> (ev0, Inl e)
              | Inr df \<Rightarrow>
                  (case check_columns (columns df) allow_list 0 of
                     (warned, columns_to_keep) \<Rightarrow>
                       (let ev1 = ev0 @ map (\<lambda>c. Print (Warning_missing c)) warned
                        in case select df columns_to_keep of
                             Inl e \<Rightarrow> (ev1, Inl e)
                           | Inr df1 \<Rightarrow>
                               (let df2 = set_column df1 ''timestamp''
                                            (Val (JStr (strftime_timestamp (clock w 1))))
                                in case to_excel_exn w file_path df2 of
                                     Some e \<Rightarrow> (ev1, Inl e)
                                   | None \<Rightarrow>
                                       (let ev2 = ev1 @ [Write_excel file_path df2]
                                        in if path_exists w file_path then
                                             (case getsize w file_path of
                                                Inl e \<Rightarrow> (ev2, Inl e)
                                              | Inr file_size \<Rightarrow>
                                                  print_then w ev2 (Excel_created file_path file_size)
                                                    (Some file_path))
                                           else
                                             print_then w ev2 (Excel_failed file_path) None))))))"

text \<open>
  The whole function, with its \<^verbatim>\<open>except Exception\<close> handler. The handler prints a line
  before it returns \<^verbatim>\<open>None\<close>; an exception of that \<^verbatim>\<open>print\<close> is raised inside the handler and
  leaves the function (\<open>Inl\<close>).
\<close>

definition save_to_excel ::
  "('n, 'z) world_scheme \<Rightarrow> 'n json \<Rightarrow> string \<Rightarrow> 'n event list \<times> (exn + string option)" where
  "save_to_excel w data directory =
     (case save_try w data directory of
        (evs, Inl e) \<Rightarrow> print_then w evs (Error_saving e) None
      | (evs, Inr ret) \<Rightarrow> (evs, Inr ret))"

text \<open>The tables a trace wrote, with their paths, and the columns it warned about.\<close>

fun written :: "'n event list \<Rightarrow> (string \<times> 'n frame) list" where
  "written [] = []"
| "written (Write_excel p t # evs) = (p, t) # written evs"
| "written (e # evs) = written evs"

fun warnings :: "'n event list \<Rightarrow> string list" where
  "warnings [] = []"
| "warnings (Print (Warning_missing c) # evs) = c # warnings evs"
| "warnings (e # evs) = warnings evs"

section \<open>main\<close>



section \<open>Classifying responses, and networks to run the code on\<close>

text \<open>A failed attempt as the specification counts it: an exception, or a status other than 200.\<close>

fun no_200 :: "'n response \<Rightarrow> bool" where
  "no_200 (Raises e) = True"
| "no_200 (Response status_code text body) = (status_code \<noteq> 200)"

fun rate_limited :: "'n response \<Rightarrow> bool" where
  "rate_limited (Raises e) = False"
| "rate_limited (Response status_code text body) = (status_code = 429)"

text \<open>A trace that does not sleep before its first request.\<close>

definition quiet_start :: "'n event list \<Rightarrow> bool" where
  "quiet_start evs = (sleeps (takeWhile (\<lambda>e. e \<noteq> Request) evs) = [])"

text \<open>
  A network that gives the same answer to every request, and one that answers from a list
  and then keeps giving one last answer.
\<close>

definition always :: "'n response \<Rightarrow> nat \<Rightarrow> 'n response" where
  "always r k = r"

definition replies :: "'n response list \<Rightarrow> 'n response \<Rightarrow> nat \<Rightarrow> 'n response" where
  "replies rs r k = (if k < length rs then rs ! k else r)"


text \<open>
  A world in which the operating system and the libraries do their work: directories can be
  made, files are written and found afterwards, standard output is UTF-8, and the clock
  reads 2024-03-09 07:05 with the number of the reading as the seconds.
\<close>

definition calm_world :: "(nat \<Rightarrow> 'n response) \<Rightarrow> 'n world" where
  "calm_world net =
     \<lparr>requests_get = net,
      makedirs_exn = (\<lambda>directory. None),
      clock = (\<lambda>k. \<lparr>year = 2024, month = 3, day = 9, hour = 7, minute = 5, second = k\<rparr>),
      frame_other = (\<lambda>data. Inl (ValueError ''DataFrame constructor not properly called!'')),
      to_excel_exn = (\<lambda>file_path df. None),
      path_exists = (\<lambda>file_path. True),
      getsize = (\<lambda>file_path. Inr 5120),
      stdout_emoji = True\<rparr>"



text \<open>
  A market record with every allow-listed field and one more, and one without the market
  capitalisation and the volume; a network that is down.
\<close>

definition full_record :: "string \<Rightarrow> int \<Rightarrow> (string \<times> int json) list" where
  "full_record coin price =
     [(''id'', JStr coin), (''symbol'', JStr (take 3 coin)), (''name'', JStr coin),
      (''current_price'', JNum price), (''market_cap'', JNum (price * 1000)),
      (''total_volume'', JNum (price * 10)), (''price_change_percentage_24h'', JNum 2),
      (''image'', JStr (coin @ ''.png''))]"

definition thin_record :: "string \<Rightarrow> int \<Rightarrow> (string \<times> int json) list" where
  "thin_record coin price =
     [(''id'', JStr coin), (''symbol'', JStr (take 3 coin)), (''name'', JStr coin),
      (''current_price'', JNum price), (''price_change_percentage_24h'', JNum 2)]"

definition offline :: "nat \<Rightarrow> int response" where
  "offline = always (Raises (RequestException ''Connection refused''))"


text \<open>A world whose clock is one hour ahead.\<close>

definition later_world :: "'n world \<Rightarrow> 'n world" where
  "later_world w = w\<lparr>clock := (\<lambda>k. (clock w k)\<lparr>hour := hour (clock w k) + 1\<rparr>)\<rparr>"

section \<open>Reading a table and an export trace\<close>

text \<open>The shape of a string: every decimal digit replaced by the letter d.\<close>

definition is_digit :: "char \<Rightarrow> bool" where
  "is_digit c = (c \<in> set ''0123456789'')"

definition shape :: "string \<Rightarrow> string" where
  "shape s = map (\<lambda>c. if is_digit c then CHR ''d'' else c) s"


text \<open>A list in which no two neighbours both fail \<open>P\<close>.\<close>

fun spaced :: "('a \<Rightarrow> bool) \<Rightarrow> 'a list \<Rightarrow> bool" where
  "spaced P (x # y # zs) = ((P x \<or> P y) \<and> spaced P (y # zs))"
| "spaced P xs = True"

section \<open>Properties of the retry loop\<close>

lemma attempt_step_events:
  "\<exists>tl. fst (attempt_step m a r) = Print (Fetch_attempt (a + 1) m) # Request # tl \<and> Request \<notin> set tl"
  by (cases r) (auto simp: attempt_step_def attempt_try_def Let_def split: sum.splits)

lemma attempt_step_fails: "\<not> succeeds r \<Longrightarrow> snd (attempt_step m a r) = None"
  by (cases r rule: succeeds.cases)
     (auto simp: attempt_step_def attempt_try_def Let_def has_len_def split: sum.splits)

lemma attempt_step_succeeds:
  "len data = Inr n \<Longrightarrow>
   attempt_step m a (Response 200 text (Inr data)) =
     ([Print (Fetch_attempt (a + 1) m), Request, Print (Status_code 200), Print (Fetched n)], Some data)"
  by (simp add: attempt_step_def attempt_try_def)

lemma no_200_fails: "no_200 r \<Longrightarrow> \<not> succeeds r"
  by (cases r rule: succeeds.cases) auto

lemma attempt_step_sleeps:
  "no_200 r \<Longrightarrow> sleeps (fst (attempt_step m a r)) = [if rate_limited r then 60 else 5]"
  by (cases r) (auto simp: attempt_step_def attempt_try_def)

lemma attempt_step_last:
  "no_200 r \<Longrightarrow> last (fst (attempt_step m a r)) = Sleep (if rate_limited r then 60 else 5)"
  by (cases r) (auto simp: attempt_step_def attempt_try_def)

lemma fetch_loop_append:
  "\<forall>a \<in> set as. \<not> succeeds (net a) \<Longrightarrow>
   fetch_loop m net (as @ bs) =
     (concat (map (\<lambda>a. fst (attempt_step m a (net a))) as) @ fst (fetch_loop m net bs),
      snd (fetch_loop m net bs))"
proof (induction as)
  case Nil
  then show ?case by simp
next
  case (Cons a as)
  have "snd (attempt_step m a (net a)) = None"
    using Cons.prems by (simp add: attempt_step_fails)
  then obtain evs where "attempt_step m a (net a) = (evs, None)"
    by (cases "attempt_step m a (net a)") auto
  with Cons show ?case by (simp split: prod.splits)
qed

lemma length_after_requests: "length (after_requests evs) = request_count evs"
  by (induction evs rule: after_requests.induct) (auto simp: request_count_def)

lemma request_count_append: "request_count (xs @ ys) = request_count xs + request_count ys"
  by (simp add: request_count_def)

lemma request_count_step: "request_count (fst (attempt_step m a r)) = 1"
proof -
  obtain tl where "fst (attempt_step m a r) = Print (Fetch_attempt (a + 1) m) # Request # tl"
    and "Request \<notin> set tl"
    using attempt_step_events by blast
  then show ?thesis
    by (auto simp: request_count_def filter_empty_conv)
qed

lemma request_count_Nil: "request_count [] = 0"
  by (simp add: request_count_def)

lemma request_count_steps:
  "request_count (concat (map (\<lambda>a. fst (attempt_step m a (net a))) as)) = length as"
  by (induction as) (simp_all add: request_count_append request_count_step request_count_Nil)

lemma sleeps_append: "sleeps (xs @ ys) = sleeps xs @ sleeps ys"
  by (induction xs rule: sleeps.induct) auto

lemma after_requests_no_request:
  "Request \<notin> set xs \<Longrightarrow> after_requests (xs @ ys) = after_requests ys"
  by (induction xs rule: after_requests.induct) auto

lemma takeWhile_no_request:
  "Request \<notin> set xs \<Longrightarrow> takeWhile (\<lambda>e. e \<noteq> Request) (xs @ ys) = xs @ takeWhile (\<lambda>e. e \<noteq> Request) ys"
  by (induction xs) auto

lemma waits_step_append:
  assumes "quiet_start rest"
  shows "map sleeps (after_requests (fst (attempt_step m a r) @ rest)) =
           sleeps (fst (attempt_step m a r)) # map sleeps (after_requests rest)"
proof -
  obtain tl where tl: "fst (attempt_step m a r) = Print (Fetch_attempt (a + 1) m) # Request # tl"
    and no: "Request \<notin> set tl"
    using attempt_step_events by blast
  have "sleeps (takeWhile (\<lambda>e. e \<noteq> Request) (tl @ rest)) = sleeps tl"
    using assms no by (simp add: takeWhile_no_request sleeps_append quiet_start_def)
  then show ?thesis
    using no by (simp add: tl after_requests_no_request)
qed

lemma quiet_start_step: "quiet_start (fst (attempt_step m a r) @ rest)"
proof -
  obtain tl where "fst (attempt_step m a r) = Print (Fetch_attempt (a + 1) m) # Request # tl"
    using attempt_step_events by blast
  then show ?thesis by (simp add: quiet_start_def)
qed

lemma quiet_start_steps:
  "quiet_start rest \<Longrightarrow> quiet_start (concat (map (\<lambda>a. fst (attempt_step m a (net a))) as) @ rest)"
  by (cases as) (simp_all add: quiet_start_step)

lemma waits_steps_append:
  "quiet_start rest \<Longrightarrow>
   map sleeps (after_requests (concat (map (\<lambda>a. fst (attempt_step m a (net a))) as) @ rest)) =
     map (\<lambda>a. sleeps (fst (attempt_step m a (net a)))) as @ map sleeps (after_requests rest)"
proof (induction as)
  case Nil
  then show ?case by simp
next
  case (Cons a as)
  have "quiet_start (concat (map (\<lambda>a. fst (attempt_step m a (net a))) as) @ rest)"
    using Cons.prems by (rule quiet_start_steps)
  then show ?case
    using Cons by (simp add: waits_step_append)
qed

lemma quiet_start_fetch_loop: "quiet_start (fst (fetch_loop m net as))"
proof (cases as)
  case Nil
  then show ?thesis by (simp add: quiet_start_def)
next
  case (Cons a bs)
  obtain evs ret where step: "attempt_step m a (net a) = (evs, ret)"
    by (cases "attempt_step m a (net a)")
  have "quiet_start (evs @ rest)" for rest
    using quiet_start_step [of m a "net a" rest] step by simp
  from this [of "[]"] this [of "fst (fetch_loop m net bs)"] show ?thesis
    using Cons step by (cases ret) (auto split: prod.splits)
qed

text \<open>The loop from attempt k on, when the attempts before it have been made and failed.\<close>

lemma fetch_split:
  assumes "k < nat m" and "\<forall>j<k. \<not> succeeds (net j)"
  shows "fetch_crypto_data m net =
           (concat (map (\<lambda>a. fst (attempt_step m a (net a))) [0 ..< k]) @ fst (fetch_loop m net [k ..< nat m]),
            snd (fetch_loop m net [k ..< nat m]))"
proof -
  have "[0 ..< nat m] = [0 ..< k] @ [k ..< nat m]"
    using assms(1) by (metis le_add_diff_inverse less_imp_le_nat upt_add_eq_append zero_le)
  then show ?thesis
    using assms(2) by (simp add: fetch_crypto_data_def fetch_loop_append)
qed

lemma waits_after_attempt:
  assumes "k < nat m" and "\<forall>j<k. \<not> succeeds (net j)"
  shows "waits_after (fst (fetch_crypto_data m net)) k = sleeps (fst (attempt_step m k (net k)))"
proof -
  let ?pre = "concat (map (\<lambda>a. fst (attempt_step m a (net a))) [0 ..< k])"
  let ?rest = "fst (fetch_loop m net [k ..< nat m])"
  have up: "[k ..< nat m] = k # [Suc k ..< nat m]"
    using assms(1) by (simp add: upt_conv_Cons)
  obtain evs ret where step: "attempt_step m k (net k) = (evs, ret)"
    by (cases "attempt_step m k (net k)")
  have rest: "map sleeps (after_requests ?rest) ! 0 = sleeps evs \<and> after_requests ?rest \<noteq> []"
  proof (cases ret)
    case None
    have "map sleeps (after_requests (evs @ fst (fetch_loop m net [Suc k ..< nat m]))) =
            sleeps evs # map sleeps (after_requests (fst (fetch_loop m net [Suc k ..< nat m])))"
      using waits_step_append [OF quiet_start_fetch_loop, of m k "net k" m net "[Suc k ..< nat m]"] step
      by simp
    then show ?thesis
      using None step up by (auto split: prod.splits)
  next
    case (Some d)
    have "map sleeps (after_requests (evs @ [])) = sleeps evs # map sleeps (after_requests [])"
      using waits_step_append [of "[]" m k "net k"] step by (simp add: quiet_start_def)
    then show ?thesis
      using Some step up by auto
  qed
  have "map sleeps (after_requests (?pre @ ?rest)) =
          map (\<lambda>a. sleeps (fst (attempt_step m a (net a)))) [0 ..< k] @ map sleeps (after_requests ?rest)"
    by (rule waits_steps_append [OF quiet_start_fetch_loop])
  then have "map sleeps (after_requests (?pre @ ?rest)) ! k = sleeps evs"
    using rest by (simp add: nth_append)
  moreover have "k < length (after_requests (?pre @ ?rest))"
  proof -
    have "length (after_requests (?pre @ ?rest)) = k + length (after_requests ?rest)"
      by (simp add: length_after_requests request_count_append request_count_steps)
    moreover have "0 < length (after_requests ?rest)"
      using rest by simp
    ultimately show ?thesis by simp
  qed
  ultimately show ?thesis
    using step by (simp add: waits_after_def fetch_split [OF assms])
qed

lemma fetch_all_fail:
  assumes "\<forall>k < nat m. \<not> succeeds (net k)"
  shows "fetch_crypto_data m net =
           (concat (map (\<lambda>a. fst (attempt_step m a (net a))) [0 ..< nat m]) @ [Print All_failed], None)"
  using fetch_loop_append [of "[0 ..< nat m]" net m "[]"] assms
  by (simp add: fetch_crypto_data_def)

lemma request_count_fetch_loop_Cons: "0 < request_count (fst (fetch_loop m net (a # as)))"
proof -
  obtain evs ret where step: "attempt_step m a (net a) = (evs, ret)"
    by (cases "attempt_step m a (net a)")
  then have "request_count evs = 1"
    using request_count_step [of m a "net a"] by simp
  then show ?thesis
    using step by (cases ret) (auto simp: request_count_append split: prod.splits)
qed

section \<open>Claims about fetch_crypto_data\<close>

text \<open>
  C2, as stated: an attempt that gets status 200 returns at once. It fails on a 200 whose
  body is not JSON: \<^verbatim>\<open>response.json()\<close> raises inside the \<^verbatim>\<open>try\<close>, the handler sleeps
  5 seconds and the loop goes on to a second request.
\<close>

theorem fetch_200_malformed_retries:
  "fetch_crypto_data 2 (always (Response 200 ''<html>'' (Inl JSONDecodeError))) =
     ([Print (Fetch_attempt 1 2), Request, Print (Status_code 200),
       Print (Exception_during_fetch JSONDecodeError), Sleep 5,
       Print (Fetch_attempt 2 2), Request, Print (Status_code 200),
       Print (Exception_during_fetch JSONDecodeError), Sleep 5,
       Print All_failed], (None :: int json option))"
  by code_simp

text \<open>
  C2, amended: when the attempts before attempt \<open>k\<close> have failed and attempt \<open>k\<close> gets
  status 200 with a body that parses to a value with a length (\<open>n\<close>; for a list, its
  number of elements), the function returns that value; the trace ends with the request of
  attempt \<open>k\<close> and the two lines printed after it, so \<open>k + 1\<close> requests were made and
  nothing is slept after the last one.
\<close>

theorem fetch_returns_on_200:
  assumes "k < nat max_retries"
    and "\<forall>j<k. \<not> succeeds (net j)"
    and "net k = Response 200 text (Inr data)"
    and "len data = Inr n"
  shows "fetch_crypto_data max_retries net =
           (concat (map (\<lambda>j. fst (attempt_step max_retries j (net j))) [0 ..< k]) @
              [Print (Fetch_attempt (k + 1) max_retries), Request, Print (Status_code 200),
               Print (Fetched n)],
            Some data)
         \<and> request_count (fst (fetch_crypto_data max_retries net)) = k + 1
         \<and> waits_after (fst (fetch_crypto_data max_retries net)) k = []
         \<and> (\<forall>xs. data = JArr xs \<longrightarrow> n = length xs)"
proof -
  have up: "[k ..< nat max_retries] = k # [Suc k ..< nat max_retries]"
    using assms(1) by (simp add: upt_conv_Cons)
  have step: "attempt_step max_retries k (net k) =
      ([Print (Fetch_attempt (k + 1) max_retries), Request, Print (Status_code 200),
        Print (Fetched n)], Some data)"
    using assms(3,4) by (simp add: attempt_step_succeeds)
  have eq: "fetch_crypto_data max_retries net =
           (concat (map (\<lambda>j. fst (attempt_step max_retries j (net j))) [0 ..< k]) @
              [Print (Fetch_attempt (k + 1) max_retries), Request, Print (Status_code 200),
               Print (Fetched n)],
            Some data)"
    using step by (simp add: fetch_split [OF assms(1,2)] up)
  have "request_count (fst (fetch_crypto_data max_retries net)) = k + 1"
    by (simp add: eq request_count_append request_count_steps) (simp add: request_count_def)
  moreover have "waits_after (fst (fetch_crypto_data max_retries net)) k = []"
    using step by (simp add: waits_after_attempt [OF assms(1,2)])
  moreover have "\<forall>xs. data = JArr xs \<longrightarrow> n = length xs"
    using assms(4) by auto
  ultimately show ?thesis using eq by simp
qed

theorem fetch_returns_on_200_witness:
  "(2::nat) < nat 3
   \<and> \<not> succeeds (replies [Response 429 ''slow down'' (Inl JSONDecodeError),
                           Response 429 ''slow down'' (Inl JSONDecodeError)]
                  (Response 200 ''[...]'' (Inr (JArr [JObj [(''id'', JStr ''bitcoin'')], JObj [(''id'', JStr ''ethereum'')]]))) 0 :: int response)
   \<and> \<not> succeeds (replies [Response 429 ''slow down'' (Inl JSONDecodeError),
                           Response 429 ''slow down'' (Inl JSONDecodeError)]
                  (Response 200 ''[...]'' (Inr (JArr [JObj [(''id'', JStr ''bitcoin'')], JObj [(''id'', JStr ''ethereum'')]]))) 1 :: int response)
   \<and> fetch_crypto_data 3
        (replies [Response 429 ''slow down'' (Inl JSONDecodeError),
                  Response 429 ''slow down'' (Inl JSONDecodeError)]
           (Response 200 ''[...]'' (Inr (JArr [JObj [(''id'', JStr ''bitcoin'')], JObj [(''id'', JStr ''ethereum'')]])))) =
       ([Print (Fetch_attempt 1 3), Request, Print (Status_code 429), Print Rate_limit, Sleep 60,
         Print (Fetch_attempt 2 3), Request, Print (Status_code 429), Print Rate_limit, Sleep 60,
         Print (Fetch_attempt 3 3), Request, Print (Status_code 200), Print (Fetched 2)],
        Some (JArr [JObj [(''id'', JStr ''bitcoin'')], JObj [(''id'', JStr ''ethereum'' :: int json)]]))"
proof -
  let ?ok = "Response 200 ''[...]'' (Inr (JArr [JObj [(''id'', JStr ''bitcoin'')], JObj [(''id'', JStr ''ethereum'' :: int json)]]))"
  let ?net = "replies [Response 429 ''slow down'' (Inl JSONDecodeError),
                       Response 429 ''slow down'' (Inl JSONDecodeError)] ?ok"
  have h1: "(2::nat) < nat 3" by simp
  have f0: "\<not> succeeds (?net 0)" and f1: "\<not> succeeds (?net 1)"
    by (simp_all add: replies_def)
  have h2: "\<forall>j<2. \<not> succeeds (?net j)"
    using f0 f1 by (auto simp: less_Suc_eq numeral_2_eq_2)
  have h3: "?net 2 = Response 200 ''[...]'' (Inr (JArr [JObj [(''id'', JStr ''bitcoin'')], JObj [(''id'', JStr ''ethereum'')]]))"
    by (simp add: replies_def)
  have h4: "len (JArr [JObj [(''id'', JStr ''bitcoin'')], JObj [(''id'', JStr ''ethereum'' :: int json)]]) = Inr 2"
    by simp
  have up: "[0 ..< 2] = [0, Suc 0]"
    by (simp add: numeral_2_eq_2)
  have s0: "fst (attempt_step 3 0 (?net 0)) =
      [Print (Fetch_attempt 1 3), Request, Print (Status_code 429), Print Rate_limit, Sleep 60]"
    and s1: "fst (attempt_step 3 (Suc 0) (?net (Suc 0))) =
      [Print (Fetch_attempt 2 3), Request, Print (Status_code 429), Print Rate_limit, Sleep 60]"
    by (simp_all add: replies_def attempt_step_def attempt_try_def)
  have "fetch_crypto_data 3 ?net =
      (concat (map (\<lambda>j. fst (attempt_step 3 j (?net j))) [0 ..< 2]) @
         [Print (Fetch_attempt (2 + 1) 3), Request, Print (Status_code 200), Print (Fetched 2)],
       Some (JArr [JObj [(''id'', JStr ''bitcoin'')], JObj [(''id'', JStr ''ethereum'')]]))"
    using fetch_returns_on_200 [OF h1 h2 h3 h4] by blast
  then have "fetch_crypto_data 3 ?net =
       ([Print (Fetch_attempt 1 3), Request, Print (Status_code 429), Print Rate_limit, Sleep 60,
         Print (Fetch_attempt 2 3), Request, Print (Status_code 429), Print Rate_limit, Sleep 60,
         Print (Fetch_attempt 3 3), Request, Print (Status_code 200), Print (Fetched 2)],
        Some (JArr [JObj [(''id'', JStr ''bitcoin'')], JObj [(''id'', JStr ''ethereum'')]]))"
    by (simp add: up s0 s1)
  then show ?thesis
    using h1 f0 f1 by simp
qed

text \<open>
  C3: when each of the \<open>max_retries\<close> attempts gets a status other than 200 or an exception
  from the transport, the function returns \<^verbatim>\<open>None\<close> and has made exactly \<open>max_retries\<close>
  requests (none at all when \<open>max_retries\<close> is negative).
\<close>

theorem all_attempts_fail:
  assumes "\<forall>k < nat max_retries. no_200 (net k)"
  shows "snd (fetch_crypto_data max_retries net) = None
         \<and> request_count (fst (fetch_crypto_data max_retries net)) = nat max_retries
         \<and> (0 \<le> max_retries \<longrightarrow> int (request_count (fst (fetch_crypto_data max_retries net))) = max_retries)"
proof -
  have "\<forall>k < nat max_retries. \<not> succeeds (net k)"
    using assms by (simp add: no_200_fails)
  then have eq: "fetch_crypto_data max_retries net =
      (concat (map (\<lambda>a. fst (attempt_step max_retries a (net a))) [0 ..< nat max_retries]) @ [Print All_failed], None)"
    by (rule fetch_all_fail)
  have "request_count (fst (fetch_crypto_data max_retries net)) = nat max_retries"
    by (simp add: eq request_count_append request_count_steps) (simp add: request_count_def)
  then show ?thesis by (simp add: eq)
qed

theorem all_attempts_fail_witness:
  "no_200 (always (Response 500 ''Internal Server Error'' (Inl JSONDecodeError)) 0 :: int response)
   \<and> snd (fetch_crypto_data 3 (always (Response 500 ''Internal Server Error'' (Inl JSONDecodeError)))) = (None :: int json option)
   \<and> request_count (fst (fetch_crypto_data 3 (always (Response 500 ''Internal Server Error'' (Inl JSONDecodeError) :: int response)))) = 3"
proof -
  have "\<forall>k < nat 3. no_200 (always (Response 500 ''Internal Server Error'' (Inl JSONDecodeError)) k :: int response)"
    by (simp add: always_def)
  moreover have "no_200 (always (Response 500 ''Internal Server Error'' (Inl JSONDecodeError)) 0 :: int response)"
    by (simp add: always_def)
  ultimately show ?thesis
    using all_attempts_fail [of 3 "always (Response 500 ''Internal Server Error'' (Inl JSONDecodeError)) :: nat \<Rightarrow> int response"]
    by simp
qed

text \<open>
  C4: an attempt \<open>k\<close> that is reached and is not the last one, and that gets a status
  other than 200 or an exception, is followed by exactly one sleep before the next request:
  60 seconds on status 429, 5 seconds otherwise; and the next request is made.
\<close>

theorem wait_before_next_attempt:
  assumes "k + 1 < nat max_retries"
    and "\<forall>j<k. \<not> succeeds (net j)"
    and "no_200 (net k)"
  shows "waits_after (fst (fetch_crypto_data max_retries net)) k = [if rate_limited (net k) then 60 else 5]
         \<and> k + 1 < request_count (fst (fetch_crypto_data max_retries net))"
proof -
  have k: "k < nat max_retries"
    using assms(1) by simp
  have w: "waits_after (fst (fetch_crypto_data max_retries net)) k = [if rate_limited (net k) then 60 else 5]"
    using assms(3) by (simp add: waits_after_attempt [OF k assms(2)] attempt_step_sleeps)
  have "\<forall>j<k + 1. \<not> succeeds (net j)"
    using assms(2,3) by (auto simp: less_Suc_eq no_200_fails)
  from fetch_split [OF assms(1) this]
  have "request_count (fst (fetch_crypto_data max_retries net)) =
          k + 1 + request_count (fst (fetch_loop max_retries net [k + 1 ..< nat max_retries]))"
    by (simp only: fst_conv request_count_append request_count_steps length_upt diff_zero)
  moreover have "[k + 1 ..< nat max_retries] = (k + 1) # [Suc (k + 1) ..< nat max_retries]"
    using assms(1) by (simp add: upt_conv_Cons)
  ultimately have "k + 1 < request_count (fst (fetch_crypto_data max_retries net))"
    using request_count_fetch_loop_Cons [of max_retries net "k + 1" "[Suc (k + 1) ..< nat max_retries]"]
    by simp
  with w show ?thesis by simp
qed

theorem wait_before_next_attempt_witness:
  "(0::nat) + 1 < nat 3
   \<and> no_200 (replies [Response 429 ''slow down'' (Inl JSONDecodeError), Raises (RequestException ''timed out'')]
               (Response 503 ''unavailable'' (Inl JSONDecodeError)) 0 :: int response)
   \<and> waits_after (fst (fetch_crypto_data 3
        (replies [Response 429 ''slow down'' (Inl JSONDecodeError), Raises (RequestException ''timed out'')]
           (Response 503 ''unavailable'' (Inl JSONDecodeError) :: int response)))) 0 = [60]"
proof -
  let ?net = "replies [Response 429 ''slow down'' (Inl JSONDecodeError), Raises (RequestException ''timed out'')]
               (Response 503 ''unavailable'' (Inl JSONDecodeError)) :: nat \<Rightarrow> int response"
  have h1: "(0::nat) + 1 < nat 3" by simp
  have h2: "\<forall>j<0. \<not> succeeds (?net j)" by simp
  have h3: "no_200 (?net 0)" by (simp add: replies_def)
  have r: "rate_limited (?net 0)" by (simp add: replies_def)
  from wait_before_next_attempt [OF h1 h2 h3] r h3 show ?thesis
    by simp
qed

text \<open>
  C9: when the last attempt is reached and gets a status other than 200 or an exception,
  the function still sleeps (60 seconds on status 429, 5 seconds otherwise) after that last
  request; the sleep is the last effect before the closing message, and the result is
  \<^verbatim>\<open>None\<close>.
\<close>

theorem wait_after_final_attempt:
  assumes "0 < max_retries"
    and "\<forall>j < nat max_retries - 1. \<not> succeeds (net j)"
    and "no_200 (net (nat max_retries - 1))"
  shows "snd (fetch_crypto_data max_retries net) = None
         \<and> request_count (fst (fetch_crypto_data max_retries net)) = nat max_retries
         \<and> waits_after (fst (fetch_crypto_data max_retries net)) (nat max_retries - 1) =
             [if rate_limited (net (nat max_retries - 1)) then 60 else 5]
         \<and> (\<exists>pre. fst (fetch_crypto_data max_retries net) =
               pre @ [Sleep (if rate_limited (net (nat max_retries - 1)) then 60 else 5), Print All_failed])"
proof -
  let ?k = "nat max_retries - 1"
  let ?d = "if rate_limited (net ?k) then 60 else 5 :: nat"
  have k: "?k < nat max_retries"
    using assms(1) by simp
  have all: "\<forall>j < nat max_retries. \<not> succeeds (net j)"
  proof (intro allI impI)
    fix j assume "j < nat max_retries"
    then have "j < ?k \<or> j = ?k" by auto
    then show "\<not> succeeds (net j)"
      using assms(2,3) by (auto simp: no_200_fails)
  qed
  then have eq: "fetch_crypto_data max_retries net =
      (concat (map (\<lambda>a. fst (attempt_step max_retries a (net a))) [0 ..< nat max_retries]) @ [Print All_failed], None)"
    by (rule fetch_all_fail)
  have cnt: "request_count (fst (fetch_crypto_data max_retries net)) = nat max_retries"
    by (simp add: eq request_count_append request_count_steps) (simp add: request_count_def)
  have w: "waits_after (fst (fetch_crypto_data max_retries net)) ?k = [?d]"
    using waits_after_attempt [OF k assms(2)]
      attempt_step_sleeps [OF assms(3), of max_retries ?k] by simp
  have "Suc ?k = nat max_retries"
    using assms(1) by simp
  then have "[0 ..< nat max_retries] = [0 ..< Suc ?k]"
    by (simp only:)
  then have up: "[0 ..< nat max_retries] = [0 ..< ?k] @ [?k]"
    by (simp only: upt_Suc_append [OF le0])
  let ?S = "\<lambda>a. fst (attempt_step max_retries a (net a))"
  have "?S ?k \<noteq> []"
    using attempt_step_events [of max_retries ?k "net ?k"] by auto
  moreover have "last (?S ?k) = Sleep ?d"
    using assms(3) by (rule attempt_step_last)
  ultimately obtain b where b: "?S ?k = b @ [Sleep ?d]"
    using append_butlast_last_id [of "?S ?k"] by metis
  have "concat (map ?S ([0 ..< ?k] @ [?k])) = concat (map ?S [0 ..< ?k]) @ ?S ?k"
    by simp
  then have "concat (map ?S ([0 ..< ?k] @ [?k])) @ [Print All_failed] =
      (concat (map ?S [0 ..< ?k]) @ b) @ [Sleep ?d, Print All_failed]"
    by (simp only: b append_assoc append_Cons append_Nil)
  then have "fst (fetch_crypto_data max_retries net) =
      (concat (map ?S [0 ..< ?k]) @ b) @ [Sleep ?d, Print All_failed]"
    by (simp only: eq fst_conv up [symmetric])
  then have "\<exists>pre. fst (fetch_crypto_data max_retries net) = pre @ [Sleep ?d, Print All_failed]"
    by (rule exI)
  moreover have "snd (fetch_crypto_data max_retries net) = None"
    by (simp add: eq)
  ultimately show ?thesis
    using cnt w by blast
qed

theorem wait_after_final_attempt_witness:
  "(0::int) < 1
   \<and> no_200 (always (Response 429 ''slow down'' (Inl JSONDecodeError)) (nat 1 - 1) :: int response)
   \<and> fetch_crypto_data 1 (always (Response 429 ''slow down'' (Inl JSONDecodeError))) =
       ([Print (Fetch_attempt 1 1), Request, Print (Status_code 429), Print Rate_limit, Sleep 60,
         Print All_failed], (None :: int json option))
   \<and> waits_after (fst (fetch_crypto_data 1 (always (Response 429 ''slow down'' (Inl JSONDecodeError) :: int response)))) 0 = [60]"
proof -
  let ?net = "always (Response 429 ''slow down'' (Inl JSONDecodeError)) :: nat \<Rightarrow> int response"
  have h1: "(0::int) < 1" by simp
  have h2: "\<forall>j < nat 1 - 1. \<not> succeeds (?net j)" by simp
  have h3: "no_200 (?net (nat 1 - 1))" by (simp add: always_def)
  have ev: "fetch_crypto_data 1 ?net =
       ([Print (Fetch_attempt 1 1), Request, Print (Status_code 429), Print Rate_limit, Sleep 60,
         Print All_failed], None)"
    by (simp add: fetch_crypto_data_def always_def attempt_step_def attempt_try_def)
  from wait_after_final_attempt [OF h1 h2 h3] h3 ev show ?thesis
    by simp
qed

text \<open>
  C10: with \<open>max_retries\<close> zero or negative the loop body never runs: the function prints
  the closing message and returns \<^verbatim>\<open>None\<close>, with no request and no sleep.
\<close>

theorem no_attempt_without_retries:
  assumes "max_retries \<le> 0"
  shows "fetch_crypto_data max_retries net = ([Print All_failed], None)
         \<and> request_count (fst (fetch_crypto_data max_retries net)) = 0
         \<and> sleeps (fst (fetch_crypto_data max_retries net)) = []"
  using assms by (simp add: fetch_crypto_data_def request_count_def)

theorem no_attempt_without_retries_witness:
  "(0::int) \<le> 0
   \<and> fetch_crypto_data 0 (always (Response 200 ''[]'' (Inr (JArr [])))) = ([Print All_failed], (None :: int json option))
   \<and> fetch_crypto_data (- 2) (always (Response 200 ''[]'' (Inr (JArr [])))) = ([Print All_failed], (None :: int json option))"
  using no_attempt_without_retries [of 0 "always (Response 200 ''[]'' (Inr (JArr []))) :: nat \<Rightarrow> int response"]
    no_attempt_without_retries [of "- 2" "always (Response 200 ''[]'' (Inr (JArr []))) :: nat \<Rightarrow> int response"]
  by simp

section \<open>Properties of save_to_excel\<close>

lemma check_columns_filter:
  "check_columns present keep i = (warned, kept) \<Longrightarrow>
   filter (\<lambda>c. c \<in> set present) kept = filter (\<lambda>c. c \<in> set present) keep"
proof (induction present keep i arbitrary: warned kept rule: check_columns.induct)
  case (1 present keep i)
  show ?case
  proof (cases "i < length keep")
    case False
    with "1.prems" show ?thesis by (simp add: check_columns.simps [of present keep i])
  next
    case True
    show ?thesis
    proof (cases "keep ! i \<in> set present")
      case True
      with \<open>i < length keep\<close> "1.prems" "1.IH"(2) show ?thesis
        by (simp add: check_columns.simps [of present keep i])
    next
      case False
      obtain warned' kept' where rec:
        "check_columns present (remove1 (keep ! i) keep) (i + 1) = (warned', kept')"
        by (cases "check_columns present (remove1 (keep ! i) keep) (i + 1)")
      with False \<open>i < length keep\<close> "1.prems" have "kept = kept'"
        by (simp add: check_columns.simps [of present keep i])
      moreover have "filter (\<lambda>c. c \<in> set present) kept' =
          filter (\<lambda>c. c \<in> set present) (remove1 (keep ! i) keep)"
        using "1.IH"(1) [OF \<open>i < length keep\<close> False rec] .
      moreover have "filter (\<lambda>c. c \<in> set present) (remove1 (keep ! i) keep) =
          filter (\<lambda>c. c \<in> set present) keep"
        using False by (simp add: filter_remove1 remove1_idem)
      ultimately show ?thesis by simp
    qed
  qed
qed

lemma kept_all_present:
  assumes "check_columns present keep 0 = (warned, kept)" and "set kept \<subseteq> set present"
  shows "kept = filter (\<lambda>c. c \<in> set present) keep"
proof -
  have "filter (\<lambda>c. c \<in> set present) kept = kept"
    using assms(2) by (auto simp: filter_id_conv)
  then show ?thesis
    using check_columns_filter [OF assms(1)] by simp
qed

lemma select_Inr:
  assumes "select df cols = Inr t"
  shows "set cols \<subseteq> set (columns df)"
    and "t = \<lparr>columns = cols, rows = map (\<lambda>row. map (cell_at (columns df) row) cols) (rows df)\<rparr>"
  using assms by (auto simp: select_def Let_def filter_empty_conv split: if_splits)

lemma as_records_map: "as_records (map JObj recs) = Some recs"
  by (induction recs) auto

lemma DataFrame_snapshot: "DataFrame w (JArr (map JObj recs)) = Inr (frame_of_records recs)"
  by (simp add: DataFrame_def as_records_map)

lemma written_append: "written (xs @ ys) = written xs @ written ys"
  by (induction xs rule: written.induct) auto

lemma written_warnings: "written (map (\<lambda>c. Print (Warning_missing c)) cs) = []"
  by (induction cs) auto


lemma written_print_then: "written (fst (print_then w evs m ret)) = written evs"
  by (simp add: print_then_def written_append split: option.splits)

lemma print_then_returned: "snd (print_then w evs m ret) = Inr r \<Longrightarrow> r = ret"
  by (auto simp: print_then_def split: option.splits)


text \<open>The ways through the body of the \<^verbatim>\<open>try\<close>.\<close>

lemma try_no_directory:
  "makedirs_exn w directory = Some e \<Longrightarrow>
   save_try w data directory = ([Makedirs directory], Inl e)"
  by (simp add: save_try_def)

lemma try_no_frame:
  "makedirs_exn w directory = None \<Longrightarrow> DataFrame w data = Inl e \<Longrightarrow>
   save_try w data directory =
     ([Makedirs directory,
       Print (Preparing (os_path_join directory (''crypto_data_'' @ strftime_date (clock w 0) @ ''.xlsx'')))],
      Inl e)"
  by (simp add: save_try_def)

lemma try_no_projection:
  "makedirs_exn w directory = None \<Longrightarrow> DataFrame w data = Inr df \<Longrightarrow>
   check_columns (columns df) allow_list 0 = (warned, kept) \<Longrightarrow> select df kept = Inl e \<Longrightarrow>
   save_try w data directory =
     ([Makedirs directory,
       Print (Preparing (os_path_join directory (''crypto_data_'' @ strftime_date (clock w 0) @ ''.xlsx'')))]
      @ map (\<lambda>c. Print (Warning_missing c)) warned, Inl e)"
  by (simp add: save_try_def)

lemma try_no_write:
  "makedirs_exn w directory = None \<Longrightarrow> DataFrame w data = Inr df \<Longrightarrow>
   check_columns (columns df) allow_list 0 = (warned, kept) \<Longrightarrow> select df kept = Inr t0 \<Longrightarrow>
   to_excel_exn w (os_path_join directory (''crypto_data_'' @ strftime_date (clock w 0) @ ''.xlsx''))
     (set_column t0 ''timestamp'' (Val (JStr (strftime_timestamp (clock w 1))))) = Some e \<Longrightarrow>
   save_try w data directory =
     ([Makedirs directory,
       Print (Preparing (os_path_join directory (''crypto_data_'' @ strftime_date (clock w 0) @ ''.xlsx'')))]
      @ map (\<lambda>c. Print (Warning_missing c)) warned, Inl e)"
  by (simp add: save_try_def)

lemma try_written:
  assumes "makedirs_exn w directory = None" and "DataFrame w data = Inr df"
    and "check_columns (columns df) allow_list 0 = (warned, kept)" and "select df kept = Inr t0"
    and "to_excel_exn w (os_path_join directory (''crypto_data_'' @ strftime_date (clock w 0) @ ''.xlsx''))
     (set_column t0 ''timestamp'' (Val (JStr (strftime_timestamp (clock w 1))))) = None"
  shows "written (fst (save_try w data directory)) =
           [(os_path_join directory (''crypto_data_'' @ strftime_date (clock w 0) @ ''.xlsx''),
             set_column t0 ''timestamp'' (Val (JStr (strftime_timestamp (clock w 1)))))]"
    and "snd (save_try w data directory) = Inr (Some q) \<Longrightarrow>
         q = os_path_join directory (''crypto_data_'' @ strftime_date (clock w 0) @ ''.xlsx'')"
    and "\<exists>rest. fst (save_try w data directory) = Makedirs directory # rest"
proof -
  let ?p = "os_path_join directory (''crypto_data_'' @ strftime_date (clock w 0) @ ''.xlsx'')"
  let ?t = "set_column t0 ''timestamp'' (Val (JStr (strftime_timestamp (clock w 1))))"
  let ?ev2 = "[Makedirs directory, Print (Preparing ?p)]
      @ map (\<lambda>c. Print (Warning_missing c)) warned @ [Write_excel ?p ?t]"
  have body: "save_try w data directory =
      (if path_exists w ?p then
         (case getsize w ?p of
            Inl e \<Rightarrow> (?ev2, Inl e)
          | Inr file_size \<Rightarrow> print_then w ?ev2 (Excel_created ?p file_size) (Some ?p))
       else print_then w ?ev2 (Excel_failed ?p) None)"
    using assms by (simp add: save_try_def Let_def split: sum.splits)
  have ev2: "written ?ev2 = [(?p, ?t)]"
    by (simp add: written_append written_warnings)
  show "written (fst (save_try w data directory)) = [(?p, ?t)]"
    unfolding body using ev2 by (simp add: written_print_then split: sum.splits)
  show "q = ?p" if "snd (save_try w data directory) = Inr (Some q)"
    using that unfolding body
    by (auto dest: print_then_returned split: sum.splits if_splits)
  show "\<exists>rest. fst (save_try w data directory) = Makedirs directory # rest"
    unfolding body by (auto simp: print_then_def split: sum.splits option.splits)
qed

text \<open>
  The body either raises before anything is written, or it writes one table, at the path
  made of the directory and the first reading of the clock.
\<close>

lemma save_try_cases:
  obtains (raised) e where "snd (save_try w data directory) = Inl e"
      and "written (fst (save_try w data directory)) = []"
  | (wrote) df warned kept t0 where "DataFrame w data = Inr df"
      and "check_columns (columns df) allow_list 0 = (warned, kept)"
      and "select df kept = Inr t0"
      and "written (fst (save_try w data directory)) =
             [(os_path_join directory (''crypto_data_'' @ strftime_date (clock w 0) @ ''.xlsx''),
               set_column t0 ''timestamp'' (Val (JStr (strftime_timestamp (clock w 1)))))]"
      and "\<And>q. snd (save_try w data directory) = Inr (Some q) \<Longrightarrow>
             q = os_path_join directory (''crypto_data_'' @ strftime_date (clock w 0) @ ''.xlsx'')"
proof (cases "makedirs_exn w directory")
  case (Some e)
  then show ?thesis by (intro raised [of e]) (simp_all add: try_no_directory)
next
  case None
  show ?thesis
  proof (cases "DataFrame w data")
    case (Inl e)
    with None show ?thesis by (intro raised [of e]) (simp_all add: try_no_frame)
  next
    case (Inr df)
    obtain warned kept where cc: "check_columns (columns df) allow_list 0 = (warned, kept)"
      by (cases "check_columns (columns df) allow_list 0")
    show ?thesis
    proof (cases "select df kept")
      case (Inl e)
      with None Inr cc show ?thesis
        by (intro raised [of e]) (simp_all add: try_no_projection written_append written_warnings)
    next
      case sel: (Inr t0)
      let ?p = "os_path_join directory (''crypto_data_'' @ strftime_date (clock w 0) @ ''.xlsx'')"
      let ?t = "set_column t0 ''timestamp'' (Val (JStr (strftime_timestamp (clock w 1))))"
      show ?thesis
      proof (cases "to_excel_exn w ?p ?t")
        case (Some e)
        with None Inr cc sel show ?thesis
          by (intro raised [of e]) (simp_all add: try_no_write written_append written_warnings)
      next
        case ok: None
        show ?thesis
          using Inr cc sel try_written(1) [OF None Inr cc sel ok]
            try_written(2) [OF None Inr cc sel ok]
          by (rule wrote)
      qed
    qed
  qed
qed


text \<open>The handler adds at most its own line to the trace, and returns no path.\<close>

lemma written_save:
  "written (fst (save_to_excel w data directory)) = written (fst (save_try w data directory))"
  by (cases "save_try w data directory")
     (auto simp: save_to_excel_def written_print_then split: sum.splits)

lemma returned_save:
  "snd (save_to_excel w data directory) = Inr (Some p) \<Longrightarrow>
   snd (save_try w data directory) = Inr (Some p)"
  by (cases "save_try w data directory")
     (auto simp: save_to_excel_def dest: print_then_returned split: sum.splits)

text \<open>What a run that writes a table has done before.\<close>

lemma written_table:
  assumes "(p, t) \<in> set (written (fst (save_to_excel w data directory)))"
  shows "\<exists>df warned kept t0.
           DataFrame w data = Inr df
           \<and> check_columns (columns df) allow_list 0 = (warned, kept)
           \<and> select df kept = Inr t0
           \<and> t = set_column t0 ''timestamp'' (Val (JStr (strftime_timestamp (clock w 1))))
           \<and> written (fst (save_to_excel w data directory)) = [(p, t)]"
proof (cases rule: save_try_cases [of w data directory])
  case (raised e)
  with assms show ?thesis by (simp add: written_save)
next
  case (wrote df warned kept t0)
  with assms show ?thesis by (auto simp: written_save)
qed

lemma returned_path:
  assumes "save_to_excel w data directory = (evs, Inr (Some path))"
  shows "\<exists>t. written evs = [(path, t)]"
proof -
  have ret: "snd (save_try w data directory) = Inr (Some path)"
    using assms by (intro returned_save) simp
  have evs: "written evs = written (fst (save_try w data directory))"
    using assms written_save [of w data directory] by simp
  show ?thesis
  proof (cases rule: save_try_cases [of w data directory])
    case (raised e)
    with ret show ?thesis by simp
  next
    case (wrote df warned kept t0)
    from wrote(5) [OF ret] wrote(4) evs show ?thesis by simp
  qed
qed

lemma is_digit_digit: "is_digit (digit n)"
proof -
  have "n mod 10 < length ''0123456789''" by simp
  then have "''0123456789'' ! (n mod 10) \<in> set ''0123456789''"
    by (rule nth_mem)
  then show ?thesis by (simp only: is_digit_def digit_def)
qed

lemma shape_timestamp: "shape (strftime_timestamp t) = ''dddd-dd-dd dd:dd:dd''"
proof -
  have sep: "\<not> is_digit CHR ''-''" "\<not> is_digit CHR '' ''" "\<not> is_digit CHR '':''"
    by (simp_all add: is_digit_def)
  show ?thesis
    by (simp add: shape_def strftime_timestamp_def strftime_date_def pad2_def pad4_def
        is_digit_digit sep)
qed

lemma timestamp_not_allowed: "''timestamp'' \<notin> set allow_list"
  by (simp add: allow_list_def)

lemma rows_frame_of_records: "length (rows (frame_of_records recs)) = length recs"
  by (simp add: frame_of_records_def Let_def)

text \<open>The table a run wrote from a snapshot.\<close>

lemma written_snapshot:
  assumes "(p, t) \<in> set (written (fst (save_to_excel w (JArr (map JObj recs)) directory)))"
  shows "t = \<lparr>columns = filter (\<lambda>c. c \<in> set (columns (frame_of_records recs))) allow_list @ [''timestamp''],
              rows = map (\<lambda>row. map (cell_at (columns (frame_of_records recs)) row)
                                   (filter (\<lambda>c. c \<in> set (columns (frame_of_records recs))) allow_list)
                                 @ [Val (JStr (strftime_timestamp (clock w 1)))])
                         (rows (frame_of_records recs))\<rparr>"
    and "written (fst (save_to_excel w (JArr (map JObj recs)) directory)) = [(p, t)]"
proof -
  let ?df = "frame_of_records recs"
  obtain df warned kept t0 where df: "DataFrame w (JArr (map JObj recs)) = Inr df"
    and cc: "check_columns (columns df) allow_list 0 = (warned, kept)"
    and sel: "select df kept = Inr t0"
    and t: "t = set_column t0 ''timestamp'' (Val (JStr (strftime_timestamp (clock w 1))))"
    and wr: "written (fst (save_to_excel w (JArr (map JObj recs)) directory)) = [(p, t)]"
    using written_table [OF assms] by blast
  have [simp]: "df = ?df"
    using df by (simp add: DataFrame_snapshot)
  have kept: "kept = filter (\<lambda>c. c \<in> set (columns ?df)) allow_list"
    using kept_all_present [OF cc] select_Inr(1) [OF sel] by simp
  have t0: "t0 = \<lparr>columns = kept, rows = map (\<lambda>row. map (cell_at (columns ?df) row) kept) (rows ?df)\<rparr>"
    using select_Inr(2) [OF sel] by simp
  have "''timestamp'' \<notin> set kept"
    using timestamp_not_allowed by (simp add: kept)
  then show "t = \<lparr>columns = filter (\<lambda>c. c \<in> set (columns ?df)) allow_list @ [''timestamp''],
              rows = map (\<lambda>row. map (cell_at (columns ?df) row)
                                   (filter (\<lambda>c. c \<in> set (columns ?df)) allow_list)
                                 @ [Val (JStr (strftime_timestamp (clock w 1)))])
                         (rows ?df)\<rparr>"
    by (simp add: t t0 set_column_def kept)
  show "written (fst (save_to_excel w (JArr (map JObj recs)) directory)) = [(p, t)]"
    by (rule wr)
qed




text \<open>
  The column check does what its comment says as long as no two neighbours of the list are
  both missing: it warns about each missing column once and keeps exactly the present ones.
\<close>

lemma spaced_tail: "spaced P (x # xs) \<Longrightarrow> spaced P xs"
  by (cases xs) auto

lemma check_columns_spaced:
  assumes "distinct (pre @ rest)" and "set pre \<subseteq> set present"
    and "spaced (\<lambda>c. c \<in> set present) rest"
  shows "check_columns present (pre @ rest) (length pre) =
           (filter (\<lambda>c. c \<notin> set present) rest, pre @ filter (\<lambda>c. c \<in> set present) rest)"
  using assms
proof (induction "length rest" arbitrary: pre rest rule: less_induct)
  case less
  show ?case
  proof (cases rest)
    case Nil
    then show ?thesis
      by (simp add: check_columns.simps [of present pre "length pre"])
  next
    case (Cons x xs)
    show ?thesis
    proof (cases "x \<in> set present")
      case True
      have "check_columns present ((pre @ [x]) @ xs) (length (pre @ [x])) =
          (filter (\<lambda>c. c \<notin> set present) xs, (pre @ [x]) @ filter (\<lambda>c. c \<in> set present) xs)"
        using less.prems True Cons spaced_tail [of _ x xs]
        by (intro less.hyps) auto
      then show ?thesis
        using True Cons by (simp add: check_columns.simps [of present "pre @ x # xs" "length pre"])
    next
      case False
      have x: "x \<notin> set pre"
        using less.prems(1) Cons by auto
      then have rm: "remove1 x (pre @ x # xs) = pre @ xs"
        by (simp add: remove1_append)
      show ?thesis
      proof (cases xs)
        case Nil
        then show ?thesis
          using False Cons rm
          by (simp add: check_columns.simps [of present "pre @ [x]" "length pre"]
              check_columns.simps [of present pre "Suc (length pre)"])
      next
        case (Cons y ys)
        have y: "y \<in> set present"
          using less.prems(3) False \<open>rest = x # xs\<close> Cons by simp
        have "spaced (\<lambda>c. c \<in> set present) ys"
          using less.prems(3) \<open>rest = x # xs\<close> Cons spaced_tail [of _ y ys] by simp
        then have "check_columns present ((pre @ [y]) @ ys) (length (pre @ [y])) =
            (filter (\<lambda>c. c \<notin> set present) ys, (pre @ [y]) @ filter (\<lambda>c. c \<in> set present) ys)"
          using less.prems y \<open>rest = x # xs\<close> Cons
          by (intro less.hyps) auto
        then show ?thesis
          using False y \<open>rest = x # xs\<close> Cons rm
          by (simp add: check_columns.simps [of present "pre @ x # y # ys" "length pre"])
      qed
    qed
  qed
qed

lemma check_allow_list_spaced:
  assumes "spaced (\<lambda>c. c \<in> set present) allow_list"
  shows "check_columns present allow_list 0 =
           (filter (\<lambda>c. c \<notin> set present) allow_list, filter (\<lambda>c. c \<in> set present) allow_list)"
proof -
  have "distinct ([] @ allow_list)"
    by (simp add: allow_list_def)
  from check_columns_spaced [OF this _ assms] show ?thesis by simp
qed

section \<open>Claims about save_to_excel\<close>

text \<open>
  C1 says that every allow-listed column missing from the snapshot is warned about once and
  left out of the written table. The code does not do that when two neighbours of the
  allow-list are missing: here no record has \<open>market_cap\<close> or \<open>total_volume\<close>; the loop
  removes \<open>market_cap\<close> from the list it is walking, so its next step reads
  \<open>price_change_percentage_24h\<close> and never looks at \<open>total_volume\<close>. One warning is printed
  for two missing columns, the projection raises a KeyError for the column still listed, and
  no table is written.
\<close>

theorem adjacent_missing_columns_abort:
  "save_to_excel (calm_world offline)
     (JArr (map JObj [thin_record ''bitcoin'' 50000, thin_record ''ethereum'' 3000])) ''data'' =
     ([Makedirs ''data'', Print (Preparing ''data/crypto_data_2024-03-09.xlsx''),
       Print (Warning_missing ''market_cap''),
       Print (Error_saving (KeyError [''total_volume'']))], Inr None)
   \<and> filter (\<lambda>c. c \<notin> set (columns (frame_of_records
          [thin_record ''bitcoin'' 50000, thin_record ''ethereum'' 3000]))) allow_list =
       [''market_cap'', ''total_volume'']
   \<and> warnings (fst (save_to_excel (calm_world offline)
          (JArr (map JObj [thin_record ''bitcoin'' 50000, thin_record ''ethereum'' 3000])) ''data'')) =
       [''market_cap'']
   \<and> written (fst (save_to_excel (calm_world offline)
          (JArr (map JObj [thin_record ''bitcoin'' 50000, thin_record ''ethereum'' 3000])) ''data'')) = []"
  by code_simp




text \<open>
  C7: when \<open>save_to_excel\<close> returns a path for a snapshot, it has written exactly one table, at
  that path. Its columns are the allow-listed columns present in the snapshot, in allow-list
  order, followed by one column \<open>timestamp\<close> (not an allow-listed name, so it occurs once);
  there is one row per record, and the last cell of every row is the second reading of the
  clock, printed as four digits, two, two, a blank and three pairs of digits between colons.
\<close>

theorem timestamp_column:
  assumes "save_to_excel w (JArr (map JObj recs)) directory = (evs, Inr (Some path))"
  shows "\<exists>t. written evs = [(path, t)]
           \<and> columns t = filter (\<lambda>c. c \<in> set (columns (frame_of_records recs))) allow_list @ [''timestamp'']
           \<and> ''timestamp'' \<notin> set allow_list
           \<and> length (rows t) = length recs
           \<and> (\<forall>row \<in> set (rows t). length row = length (columns t)
                  \<and> last row = Val (JStr (strftime_timestamp (clock w 1))))
           \<and> shape (strftime_timestamp (clock w 1)) = ''dddd-dd-dd dd:dd:dd''"
proof -
  obtain t where wr: "written evs = [(path, t)]"
    using returned_path [OF assms] by blast
  then have mem: "(path, t) \<in> set (written (fst (save_to_excel w (JArr (map JObj recs)) directory)))"
    using assms by simp
  note t = written_snapshot(1) [OF mem]
  let ?kept = "filter (\<lambda>c. c \<in> set (columns (frame_of_records recs))) allow_list"
  have c: "columns t = ?kept @ [''timestamp'']"
    by (subst t) simp
  have r: "rows t = map (\<lambda>row. map (cell_at (columns (frame_of_records recs)) row) ?kept
                                 @ [Val (JStr (strftime_timestamp (clock w 1)))])
                         (rows (frame_of_records recs))"
    by (subst t) simp
  have "length (rows t) = length recs"
    by (simp add: r rows_frame_of_records)
  moreover have "\<forall>row \<in> set (rows t). length row = length (columns t)
                  \<and> last row = Val (JStr (strftime_timestamp (clock w 1)))"
    unfolding c r by auto
  ultimately show ?thesis
    using wr c timestamp_not_allowed shape_timestamp by blast
qed

theorem timestamp_column_witness:
  "snd (save_to_excel (calm_world offline)
          (JArr (map JObj [full_record ''bitcoin'' 50000, thin_record ''ethereum'' 3000])) ''data'') =
     Inr (Some ''data/crypto_data_2024-03-09.xlsx'')
   \<and> (\<exists>t. written (fst (save_to_excel (calm_world offline)
          (JArr (map JObj [full_record ''bitcoin'' 50000, thin_record ''ethereum'' 3000])) ''data'')) =
            [(''data/crypto_data_2024-03-09.xlsx'', t)]
          \<and> columns t = [''id'', ''symbol'', ''name'', ''current_price'', ''market_cap'',
               ''total_volume'', ''price_change_percentage_24h'', ''timestamp'']
          \<and> length (rows t) = 2)
   \<and> strftime_timestamp (clock (calm_world offline) 1) = ''2024-03-09 07:05:01''"
proof -
  let ?w = "calm_world offline"
  let ?recs = "[full_record ''bitcoin'' 50000, thin_record ''ethereum'' 3000]"
  have r: "snd (save_to_excel ?w (JArr (map JObj ?recs)) ''data'') =
      Inr (Some ''data/crypto_data_2024-03-09.xlsx'')"
    by code_simp
  then have h: "save_to_excel ?w (JArr (map JObj ?recs)) ''data'' =
      (fst (save_to_excel ?w (JArr (map JObj ?recs)) ''data''), Inr (Some ''data/crypto_data_2024-03-09.xlsx''))"
    by (metis prod.collapse)
  have k: "filter (\<lambda>c. c \<in> set (columns (frame_of_records ?recs))) allow_list @ [''timestamp''] =
      [''id'', ''symbol'', ''name'', ''current_price'', ''market_cap'',
       ''total_volume'', ''price_change_percentage_24h'', ''timestamp'']"
    by code_simp
  have c: "strftime_timestamp (clock ?w 1) = ''2024-03-09 07:05:01''"
    by code_simp
  from timestamp_column [OF h] obtain t where
    "written (fst (save_to_excel ?w (JArr (map JObj ?recs)) ''data'')) =
       [(''data/crypto_data_2024-03-09.xlsx'', t)]"
    and "columns t = filter (\<lambda>c. c \<in> set (columns (frame_of_records ?recs))) allow_list @ [''timestamp'']"
    and "length (rows t) = length ?recs"
    by blast
  then show ?thesis
    using r c by (simp only: k list.size) simp
qed

text \<open>
  C8: two exports of the same snapshot, in any two worlds and directories, that both write a
  table write the same columns and, leaving the last (timestamp) cell of each row aside, the
  same rows; when the clock reads the same in both, the tables are equal.
\<close>

theorem projection_deterministic:
  assumes "(p1, t1) \<in> set (written (fst (save_to_excel w1 (JArr (map JObj recs)) d1)))"
    and "(p2, t2) \<in> set (written (fst (save_to_excel w2 (JArr (map JObj recs)) d2)))"
  shows "columns t1 = columns t2
         \<and> map butlast (rows t1) = map butlast (rows t2)
         \<and> (clock w1 1 = clock w2 1 \<longrightarrow> t1 = t2)"
proof -
  note a = written_snapshot(1) [OF assms(1)] and b = written_snapshot(1) [OF assms(2)]
  have "columns t1 = columns t2"
    by (subst a, subst b) simp
  moreover have "map butlast (rows t1) = map butlast (rows t2)"
    by (subst a, subst b) (simp add: comp_def)
  moreover have "clock w1 1 = clock w2 1 \<longrightarrow> t1 = t2"
    by (subst a, subst b) simp
  ultimately show ?thesis by blast
qed

theorem projection_deterministic_witness:
  "written (fst (save_to_excel (calm_world offline) (JArr (map JObj [full_record ''bitcoin'' 50000])) ''data'')) =
     [(''data/crypto_data_2024-03-09.xlsx'',
       \<lparr>columns = [''id'', ''symbol'', ''name'', ''current_price'', ''market_cap'',
                   ''total_volume'', ''price_change_percentage_24h'', ''timestamp''],
        rows = [[Val (JStr ''bitcoin''), Val (JStr ''bit''), Val (JStr ''bitcoin''), Val (JNum 50000),
                 Val (JNum 50000000), Val (JNum 500000), Val (JNum 2),
                 Val (JStr ''2024-03-09 07:05:01'')]]\<rparr>)]
   \<and> written (fst (save_to_excel (later_world (calm_world offline)) (JArr (map JObj [full_record ''bitcoin'' 50000])) ''out'')) =
     [(''out/crypto_data_2024-03-09.xlsx'',
       \<lparr>columns = [''id'', ''symbol'', ''name'', ''current_price'', ''market_cap'',
                   ''total_volume'', ''price_change_percentage_24h'', ''timestamp''],
        rows = [[Val (JStr ''bitcoin''), Val (JStr ''bit''), Val (JStr ''bitcoin''), Val (JNum 50000),
                 Val (JNum 50000000), Val (JNum 500000), Val (JNum 2),
                 Val (JStr ''2024-03-09 08:05:01'')]]\<rparr>)]"
proof -
  let ?t1 = "\<lparr>columns = [''id'', ''symbol'', ''name'', ''current_price'', ''market_cap'',
                   ''total_volume'', ''price_change_percentage_24h'', ''timestamp''],
        rows = [[Val (JStr ''bitcoin''), Val (JStr ''bit''), Val (JStr ''bitcoin''), Val (JNum 50000),
                 Val (JNum 50000000), Val (JNum 500000), Val (JNum 2),
                 Val (JStr ''2024-03-09 07:05:01'')]]\<rparr> :: int frame"
  let ?t2 = "\<lparr>columns = [''id'', ''symbol'', ''name'', ''current_price'', ''market_cap'',
                   ''total_volume'', ''price_change_percentage_24h'', ''timestamp''],
        rows = [[Val (JStr ''bitcoin''), Val (JStr ''bit''), Val (JStr ''bitcoin''), Val (JNum 50000),
                 Val (JNum 50000000), Val (JNum 500000), Val (JNum 2),
                 Val (JStr ''2024-03-09 08:05:01'')]]\<rparr> :: int frame"
  have a: "written (fst (save_to_excel (calm_world offline) (JArr (map JObj [full_record ''bitcoin'' 50000])) ''data'')) =
     [(''data/crypto_data_2024-03-09.xlsx'', ?t1)]"
    by code_simp
  have b: "written (fst (save_to_excel (later_world (calm_world offline)) (JArr (map JObj [full_record ''bitcoin'' 50000])) ''out'')) =
     [(''out/crypto_data_2024-03-09.xlsx'', ?t2)]"
    by code_simp
  have "columns ?t1 = columns ?t2 \<and> map butlast (rows ?t1) = map butlast (rows ?t2)
     \<and> (clock (calm_world offline) 1 = clock (later_world (calm_world offline)) 1 \<longrightarrow> ?t1 = ?t2)"
    by (rule projection_deterministic [where recs = "[full_record ''bitcoin'' 50000]"
          and ?d1.0 = "''data''" and ?d2.0 = "''out''"
          and ?p1.0 = "''data/crypto_data_2024-03-09.xlsx''" and ?p2.0 = "''out/crypto_data_2024-03-09.xlsx''"])
       (simp_all only: a b list.set_intros)
  then show ?thesis using a b by simp
qed

section \<open>Properties of main\<close>










section \<open>Claims about main\<close>





end
